theory Spec2Isabelle
  imports Main "HOL-Library.Word"
begin

unbundle bit_operations_syntax

section \<open>Values of the Go program\<close>

text \<open>
  The program is \<^verbatim>\<open>src/blockchain.go\<close>. Go's \<^verbatim>\<open>int\<close> (on a 64-bit platform) and
  \<^verbatim>\<open>int64\<close> are 64-bit two's complement words: \<open>+\<close> wraps, \<open>sint\<close> reads the signed
  value. A \<^verbatim>\<open>float64\<close> is carried as its IEEE 754 binary64 bit pattern. A Go string is a
  sequence of bytes, which is what \<open>string\<close> (a list of 8-bit \<open>char\<close>) is.
\<close>

type_synonym go_int = "64 word"
type_synonym int64 = "64 word"
type_synonym float64 = "64 word"
type_synonym byte = "8 word"

text \<open>The two run-time panics the program's expressions can raise.\<close>

datatype panic = IndexOutOfRange | SliceBoundsOutOfRange

section \<open>The library functions the program calls\<close>

subsection \<open>\<^verbatim>\<open>fmt.Sprintf\<close>: the verbs \<^verbatim>\<open>%d\<close> and \<^verbatim>\<open>%f\<close>\<close>

definition digit_char :: "nat \<Rightarrow> char" where
  "digit_char d = ''0123456789'' ! d"

fun nat_dec :: "nat \<Rightarrow> string" where
  "nat_dec n = (if n < 10 then [digit_char n] else nat_dec (n div 10) @ [digit_char (n mod 10)])"

declare nat_dec.simps [simp del]

text \<open>\<^verbatim>\<open>%d\<close> of a signed 64-bit integer: a minus sign for a negative value, then the
  decimal digits of the magnitude, without leading zeros.\<close>

definition Sprintf_d :: "go_int \<Rightarrow> string" where
  "Sprintf_d w = (if sint w < 0 then CHR ''-'' # nat_dec (nat (- sint w)) else nat_dec (nat (sint w)))"

text \<open>\<open>round_half_even p q\<close> is the integer nearest to \<open>p / q\<close>, a tie going to the even
  neighbour: the rounding of Go's \<^verbatim>\<open>strconv\<close> when it cuts an exact decimal expansion.\<close>

definition round_half_even :: "nat \<Rightarrow> nat \<Rightarrow> nat" where
  "round_half_even p q =
     (if q < 2 * (p mod q) \<or> (2 * (p mod q) = q \<and> odd (p div q)) then p div q + 1 else p div q)"

text \<open>The magnitude \<open>mant * 2 ^ ex\<close> in millionths, rounded.\<close>

definition scaled6 :: "nat \<Rightarrow> int \<Rightarrow> nat" where
  "scaled6 mant ex =
     (if 0 \<le> ex then mant * 2 ^ nat ex * 1000000
      else round_half_even (mant * 1000000) (2 ^ nat (- ex)))"

text \<open>A number of millionths as integer digits, a point, and exactly six fraction digits.\<close>

definition fixed6 :: "nat \<Rightarrow> string" where
  "fixed6 n = nat_dec (n div 1000000) @ ''.'' @
     map (\<lambda>p. digit_char (n div p mod 10)) [100000, 10000, 1000, 100, 10, 1]"

text \<open>\<^verbatim>\<open>%f\<close> of a float64 (precision 6): sign bit, 11 exponent bits, 52 fraction bits.
  An all-ones exponent is an infinity or a NaN; a zero exponent is a subnormal.\<close>

definition Sprintf_f :: "float64 \<Rightarrow> string" where
  "Sprintf_f x =
     (if unat x div 2 ^ 52 mod 2048 = 2047
      then (if unat x mod 2 ^ 52 \<noteq> 0 then ''NaN''
            else if unat x div 2 ^ 63 = 1 then ''-Inf'' else ''+Inf'')
      else (if unat x div 2 ^ 63 = 1 then ''-'' else '''') @
           fixed6 (if unat x div 2 ^ 52 mod 2048 = 0
                   then scaled6 (unat x mod 2 ^ 52) (- 1074)
                   else scaled6 (unat x mod 2 ^ 52 + 2 ^ 52) (int (unat x div 2 ^ 52 mod 2048) - 1075)))"

subsection \<open>\<^verbatim>\<open>hex.EncodeToString\<close>\<close>

definition hextable :: string where
  "hextable = ''0123456789abcdef''"

definition EncodeToString :: "byte list \<Rightarrow> string" where
  "EncodeToString src = concat (map (\<lambda>v. [hextable ! (unat v div 16), hextable ! (unat v mod 16)]) src)"

subsection \<open>\<^verbatim>\<open>sha256.Sum256\<close>\<close>

text \<open>SHA-256 as FIPS 180-4 defines it. The 32-bit words of the algorithm are naturals
  below \<open>2 ^ 32\<close>, with the reduction written out in \<open>add32\<close> and \<open>rotr\<close>.\<close>

text \<open>The sixty-four round constants, in decimal.\<close>

definition K256 :: "nat list" where
  "K256 = [
    1116352408, 1899447441, 3049323471, 3921009573, 961987163, 1508970993,
    2453635748, 2870763221, 3624381080, 310598401, 607225278, 1426881987,
    1925078388, 2162078206, 2614888103, 3248222580, 3835390401, 4022224774,
    264347078, 604807628, 770255983, 1249150122, 1555081692, 1996064986,
    2554220882, 2821834349, 2952996808, 3210313671, 3336571891, 3584528711,
    113926993, 338241895, 666307205, 773529912, 1294757372, 1396182291,
    1695183700, 1986661051, 2177026350, 2456956037, 2730485921, 2820302411,
    3259730800, 3345764771, 3516065817, 3600352804, 4094571909, 275423344,
    430227734, 506948616, 659060556, 883997877, 958139571, 1322822218,
    1537002063, 1747873779, 1955562222, 2024104815, 2227730452, 2361852424,
    2428436474, 2756734187, 3204031479, 3329325298]"

type_synonym digest_state = "nat \<times> nat \<times> nat \<times> nat \<times> nat \<times> nat \<times> nat \<times> nat"

definition init256 :: digest_state where
  "init256 = (0x6a09e667, 0xbb67ae85, 0x3c6ef372, 0xa54ff53a,
              0x510e527f, 0x9b05688c, 0x1f83d9ab, 0x5be0cd19)"

definition add32 :: "nat \<Rightarrow> nat \<Rightarrow> nat" where
  "add32 a b = (a + b) mod 4294967296"

definition rotr :: "nat \<Rightarrow> nat \<Rightarrow> nat" where
  "rotr n x = drop_bit n x OR take_bit 32 (push_bit (32 - n) x)"

definition bsig0 :: "nat \<Rightarrow> nat" where
  "bsig0 x = rotr 2 x XOR rotr 13 x XOR rotr 22 x"

definition bsig1 :: "nat \<Rightarrow> nat" where
  "bsig1 x = rotr 6 x XOR rotr 11 x XOR rotr 25 x"

definition ssig0 :: "nat \<Rightarrow> nat" where
  "ssig0 x = rotr 7 x XOR rotr 18 x XOR drop_bit 3 x"

definition ssig1 :: "nat \<Rightarrow> nat" where
  "ssig1 x = rotr 17 x XOR rotr 19 x XOR drop_bit 10 x"

definition ch :: "nat \<Rightarrow> nat \<Rightarrow> nat \<Rightarrow> nat" where
  "ch x y z = (x AND y) XOR ((x XOR 4294967295) AND z)"

definition maj :: "nat \<Rightarrow> nat \<Rightarrow> nat \<Rightarrow> nat" where
  "maj x y z = (x AND y) XOR (x AND z) XOR (y AND z)"

fun shuffle :: "digest_state \<Rightarrow> nat \<Rightarrow> nat \<Rightarrow> digest_state" where
  "shuffle (a, b, c, d, e, f, g, h) t1 t2 = (add32 t1 t2, a, b, c, add32 d t1, e, f, g)"

fun round256 :: "nat \<Rightarrow> nat \<Rightarrow> digest_state \<Rightarrow> digest_state" where
  "round256 k w (a, b, c, d, e, f, g, h) =
     shuffle (a, b, c, d, e, f, g, h)
       (add32 (add32 (add32 (add32 h (bsig1 e)) (ch e f g)) k) w)
       (add32 (bsig0 a) (maj a b c))"

text \<open>The message schedule is a window of the last sixteen words: its head is the word
  of the current round, and the next word is appended at its end.\<close>

definition next_w :: "nat list \<Rightarrow> nat" where
  "next_w w = add32 (add32 (add32 (ssig1 (w ! 14)) (w ! 9)) (ssig0 (w ! 1))) (w ! 0)"

fun rounds :: "nat list \<Rightarrow> nat list \<Rightarrow> digest_state \<Rightarrow> digest_state" where
  "rounds [] w s = s"
| "rounds (k # ks) w s = rounds ks (tl w @ [next_w w]) (round256 k (hd w) s)"

fun add_state :: "digest_state \<Rightarrow> digest_state \<Rightarrow> digest_state" where
  "add_state (a, b, c, d, e, f, g, h) (a', b', c', d', e', f', g', h') =
     (add32 a a', add32 b b', add32 c c', add32 d d',
      add32 e e', add32 f f', add32 g g', add32 h h')"

definition compress :: "digest_state \<Rightarrow> nat list \<Rightarrow> digest_state" where
  "compress s w = add_state s (rounds K256 w s)"

fun be_words :: "byte list \<Rightarrow> nat list" where
  "be_words (a # b # c # d # bs) =
     (((unat a * 256 + unat b) * 256 + unat c) * 256 + unat d) # be_words bs"
| "be_words _ = []"

fun blocks :: "digest_state \<Rightarrow> nat list \<Rightarrow> digest_state" where
  "blocks s [] = s"
| "blocks s (w # ws) = blocks (compress s (take 16 (w # ws))) (drop 15 ws)"

definition be_bytes4 :: "nat \<Rightarrow> byte list" where
  "be_bytes4 n = [of_nat (n div 16777216 mod 256), of_nat (n div 65536 mod 256),
                  of_nat (n div 256 mod 256), of_nat (n mod 256)]"

definition be_bytes8 :: "nat \<Rightarrow> byte list" where
  "be_bytes8 n = be_bytes4 (n div 4294967296) @ be_bytes4 n"

text \<open>Padding: the byte \<open>0x80\<close>, zero bytes up to 56 modulo 64, and the length of the message
  in bits as a 64-bit big-endian number.\<close>

definition pad256 :: "byte list \<Rightarrow> byte list" where
  "pad256 m = m @ [0x80] @ replicate ((119 - length m mod 64) mod 64) 0 @
              be_bytes8 ((8 * length m) mod 2 ^ 64)"

fun digest_bytes :: "digest_state \<Rightarrow> byte list" where
  "digest_bytes (a, b, c, d, e, f, g, h) = concat (map be_bytes4 [a, b, c, d, e, f, g, h])"

definition Sum256 :: "byte list \<Rightarrow> byte list" where
  "Sum256 m = digest_bytes (blocks init256 (be_words (pad256 m)))"

section \<open>The data model\<close>

record transaction =
  Sender :: string
  Recipient :: string
  Amount :: float64
  TXID :: string

subsection \<open>Slices of transactions and their backing arrays\<close>

text \<open>
  A Go slice is a view of a backing array: the array, a length and a capacity. Copying a
  slice value copies the view, not the array, so \<^verbatim>\<open>Transactions: bc.Transactions\<close> in
  \<^verbatim>\<open>addBlock\<close> makes the block share the pool's array. The arrays therefore live in a
  store, \<open>heap\<close>, that the operations read and update. The program never re-slices, so
  every slice starts at the beginning of its array.
\<close>

type_synonym addr = nat

record slice =
  arr :: addr
  len :: nat
  cap :: nat

record heap =
  arrays :: "addr \<Rightarrow> nat \<Rightarrow> transaction"
  next_addr :: addr

text \<open>The elements a \<^verbatim>\<open>range\<close> loop over the slice visits.\<close>

definition elems :: "heap \<Rightarrow> slice \<Rightarrow> transaction list" where
  "elems h s = map (arrays h (arr s)) [0..<len s]"

text \<open>The literal \<^verbatim>\<open>[]Transaction{}\<close>: length and capacity 0. It owns no array of its own;
  address 0 stands for the runtime's shared base of zero-sized allocations.\<close>

definition empty_slice :: slice where
  "empty_slice = \<lparr>arr = 0, len = 0, cap = 0\<rparr>"

definition zero_transaction :: transaction where
  "zero_transaction = \<lparr>Sender = [], Recipient = [], Amount = 0, TXID = []\<rparr>"

text \<open>
  The built-in \<^verbatim>\<open>append(s, x)\<close>. With spare capacity the element is written in place,
  into the array the slice shares with every other view of it. Otherwise a fresh array
  is allocated, the elements are copied and the new one is stored behind them. How much
  the runtime over-allocates is its own business: \<open>grow\<close> is that policy, and the new
  capacity is at least the new length whatever it says.
\<close>

definition go_append :: "(nat \<Rightarrow> nat) \<Rightarrow> heap \<Rightarrow> slice \<Rightarrow> transaction \<Rightarrow> heap \<times> slice" where
  "go_append grow h s x =
     (if len s < cap s
      then (h\<lparr>arrays := (arrays h)(arr s := (arrays h (arr s))(len s := x))\<rparr>,
            s\<lparr>len := len s + 1\<rparr>)
      else (h\<lparr>arrays := (arrays h)(next_addr h :=
                 (\<lambda>i. if i < len s then arrays h (arr s) i else zero_transaction)(len s := x)),
               next_addr := next_addr h + 1\<rparr>,
            \<lparr>arr = next_addr h, len = len s + 1, cap = max (len s + 1) (grow (cap s))\<rparr>))"

subsection \<open>Blocks and the chain\<close>

record block =
  Index :: go_int
  Timestamp :: int64
  Transactions :: slice
  Nonce :: go_int
  PreviousHash :: string
  Hash :: string

text \<open>The struct \<^verbatim>\<open>Blockchain\<close>. Its second field is also called \<^verbatim>\<open>Transactions\<close> in
  the source, where a comment names it the mempool. The chain is only ever reached
  through \<^verbatim>\<open>bc.Chain\<close>, and \<^verbatim>\<open>bc.Chain[i]\<close> copies the block out, so the chain is a
  list of block values.\<close>

record blockchain =
  Chain :: "block list"
  Mempool :: slice

section \<open>The program\<close>

text \<open>\<^verbatim>\<open>calculateHash\<close>: the string that is hashed, built by the \<^verbatim>\<open>Sprintf\<close> call and the
  loop over the block's transactions, then its SHA-256 digest in hexadecimal.\<close>

definition hashInput :: "heap \<Rightarrow> block \<Rightarrow> string" where
  "hashInput h b =
     foldl (\<lambda>acc tx. acc @ (Sender tx @ Recipient tx @ Sprintf_f (Amount tx)))
       (Sprintf_d (Index b) @ Sprintf_d (Timestamp b) @ Sprintf_d (Nonce b) @ PreviousHash b @
        Sprintf_d (of_nat (len (Transactions b))))
       (elems h (Transactions b))"

definition calculateHash :: "heap \<Rightarrow> block \<Rightarrow> string" where
  "calculateHash h b = EncodeToString (Sum256 (map of_char (hashInput h b)))"

text \<open>\<^verbatim>\<open>generateTransactionID\<close>\<close>

definition generateTransactionID :: "transaction \<Rightarrow> string" where
  "generateTransactionID tx =
     EncodeToString (Sum256 (map of_char (Sender tx @ Recipient tx @ Sprintf_f (Amount tx))))"

text \<open>\<^verbatim>\<open>createGenesisBlock\<close> and \<^verbatim>\<open>createBlockchain\<close>. The reading of the clock,
  \<^verbatim>\<open>time.Now().Unix()\<close>, is the argument \<open>now\<close>.\<close>

definition createGenesisBlock :: "heap \<Rightarrow> blockchain \<Rightarrow> int64 \<Rightarrow> blockchain" where
  "createGenesisBlock h bc now =
     (let genesisBlock = \<lparr>Index = 0, Timestamp = now, Transactions = empty_slice, Nonce = 100,
                            PreviousHash = ''0'', Hash = []\<rparr>
      in bc\<lparr>Chain := Chain bc @ [genesisBlock\<lparr>Hash := calculateHash h genesisBlock\<rparr>]\<rparr>)"

definition createBlockchain :: "heap \<Rightarrow> int64 \<Rightarrow> blockchain" where
  "createBlockchain h now = createGenesisBlock h \<lparr>Chain = [], Mempool = empty_slice\<rparr> now"

text \<open>\<^verbatim>\<open>addBlock\<close>\<close>

definition addBlock :: "heap \<Rightarrow> blockchain \<Rightarrow> go_int \<Rightarrow> int64 \<Rightarrow> string \<Rightarrow> blockchain" where
  "addBlock h bc nonce timestamp previousHash =
     (let newBlock = \<lparr>Index = of_nat (length (Chain bc)), Timestamp = timestamp,
                        Transactions = Mempool bc, Nonce = nonce,
                        PreviousHash = previousHash, Hash = []\<rparr>
      in bc\<lparr>Chain := Chain bc @ [newBlock\<lparr>Hash := calculateHash h newBlock\<rparr>],
             Mempool := empty_slice\<rparr>)"

text \<open>\<^verbatim>\<open>addTransaction\<close>: the new heap, the new chain state and the returned id.\<close>

definition addTransaction ::
  "(nat \<Rightarrow> nat) \<Rightarrow> heap \<Rightarrow> blockchain \<Rightarrow> string \<Rightarrow> string \<Rightarrow> float64 \<Rightarrow> heap \<times> blockchain \<times> string" where
  "addTransaction grow h bc sender recipient amount =
     (let tx = \<lparr>Sender = sender, Recipient = recipient, Amount = amount, TXID = []\<rparr>;
          tx = tx\<lparr>TXID := generateTransactionID tx\<rparr>;
          (h', s') = go_append grow h (Mempool bc) tx
      in (h', bc\<lparr>Mempool := s'\<rparr>, TXID tx))"

text \<open>\<^verbatim>\<open>isProofValid\<close>. The slice expression \<^verbatim>\<open>guessHash[:4]\<close> panics when the string
  has fewer than four bytes.\<close>

definition candidate :: "block \<Rightarrow> go_int \<Rightarrow> slice \<Rightarrow> int64 \<Rightarrow> block" where
  "candidate lastBlock nonce transactions candidateTimestamp =
     \<lparr>Index = Index lastBlock + 1, Timestamp = candidateTimestamp, Transactions = transactions,
      Nonce = nonce, PreviousHash = Hash lastBlock, Hash = []\<rparr>"

definition isProofValid :: "heap \<Rightarrow> block \<Rightarrow> go_int \<Rightarrow> slice \<Rightarrow> int64 \<Rightarrow> panic + bool" where
  "isProofValid h lastBlock nonce transactions candidateTimestamp =
     (let guessHash = calculateHash h (candidate lastBlock nonce transactions candidateTimestamp)
      in if length guessHash < 4 then Inl SliceBoundsOutOfRange
         else Inr (take 4 guessHash = ''0000''))"

text \<open>\<^verbatim>\<open>proofOfWork\<close>. The loop has no bound: where it never leaves, the search has no
  value (\<open>None\<close>). \<^verbatim>\<open>nonce++\<close> wraps around at the top of the 64-bit range.
  \<^verbatim>\<open>bc.Chain[len(bc.Chain)-1]\<close> panics on an empty chain.\<close>

partial_function (option) search ::
  "heap \<Rightarrow> block \<Rightarrow> slice \<Rightarrow> int64 \<Rightarrow> go_int \<Rightarrow> (panic + go_int) option" where
  "search h lastBlock transactions candidateTimestamp nonce =
     (case isProofValid h lastBlock nonce transactions candidateTimestamp of
        Inl e \<Rightarrow> Some (Inl e)
      | Inr valid \<Rightarrow> if valid then Some (Inr nonce)
                     else search h lastBlock transactions candidateTimestamp (nonce + 1))"

definition proofOfWork :: "heap \<Rightarrow> blockchain \<Rightarrow> int64 \<Rightarrow> (panic + go_int \<times> int64) option" where
  "proofOfWork h bc now =
     (if Chain bc = [] then Some (Inl IndexOutOfRange)
      else (case search h (last (Chain bc)) (Mempool bc) now 0 of
              None \<Rightarrow> None
            | Some (Inl e) \<Rightarrow> Some (Inl e)
            | Some (Inr nonce) \<Rightarrow> Some (Inr (nonce, now))))"

section \<open>Runs of the program\<close>

text \<open>A sequence of \<^verbatim>\<open>addTransaction\<close> calls, each given as sender, recipient and amount.\<close>

fun addTransactions ::
  "(nat \<Rightarrow> nat) \<Rightarrow> heap \<Rightarrow> blockchain \<Rightarrow> (string \<times> string \<times> float64) list \<Rightarrow> heap \<times> blockchain" where
  "addTransactions grow h bc [] = (h, bc)"
| "addTransactions grow h bc ((sender, recipient, amount) # calls) =
     (case addTransaction grow h bc sender recipient amount of
        (h', bc', txid) \<Rightarrow> addTransactions grow h' bc' calls)"

text \<open>
  The states the program's operations reach from \<^verbatim>\<open>createBlockchain\<close>, in any order and
  with any arguments, where a block is committed the way \<^verbatim>\<open>main\<close> does it: with the hash
  of the current last block as \<^verbatim>\<open>previousHash\<close>. Reading that block panics on an empty
  chain, so the step is there only for a chain that has one. Address 0 is never
  handed out by the allocator. \<^verbatim>\<open>proofOfWork\<close> changes nothing; a run goes on after it
  when it has returned.
\<close>

inductive reachable :: "(nat \<Rightarrow> nat) \<Rightarrow> heap \<Rightarrow> blockchain \<Rightarrow> bool" for grow :: "nat \<Rightarrow> nat" where
  created: "0 < next_addr h \<Longrightarrow> reachable grow h (createBlockchain h now)"
| appended: "reachable grow h bc \<Longrightarrow> addTransaction grow h bc sender recipient amount = (h', bc', txid)
     \<Longrightarrow> reachable grow h' bc'"
| mined: "reachable grow h bc \<Longrightarrow> proofOfWork h bc now = Some r \<Longrightarrow> reachable grow h bc"
| committed: "reachable grow h bc \<Longrightarrow> Chain bc \<noteq> []
     \<Longrightarrow> reachable grow h (addBlock h bc nonce timestamp (Hash (last (Chain bc))))"

text \<open>Every array a slice of the state refers to has been allocated: its address lies
  below the next one the allocator hands out.\<close>

definition allocated :: "heap \<Rightarrow> blockchain \<Rightarrow> bool" where
  "allocated h bc \<longleftrightarrow>
     list_all (\<lambda>b. arr (Transactions b) < next_addr h) (Chain bc) \<and> arr (Mempool bc) < next_addr h"

text \<open>The pool either has no capacity at all or an array that no block of the chain uses.\<close>

definition pool_private :: "blockchain \<Rightarrow> bool" where
  "pool_private bc \<longleftrightarrow>
     cap (Mempool bc) = 0 \<or> list_all (\<lambda>b. arr (Transactions b) \<noteq> arr (Mempool bc)) (Chain bc)"

text \<open>Tampering with a committed block: the transaction at position \<open>k\<close> of the block's
  list is overwritten in the store.\<close>

definition set_transaction :: "heap \<Rightarrow> block \<Rightarrow> nat \<Rightarrow> transaction \<Rightarrow> heap" where
  "set_transaction h b k tx =
     h\<lparr>arrays := (arrays h)(arr (Transactions b) := (arrays h (arr (Transactions b)))(k := tx))\<rparr>"

text \<open>A collision of SHA-256: two different byte strings with the same digest.\<close>

definition sha256_collision :: "byte list \<Rightarrow> byte list \<Rightarrow> bool" where
  "sha256_collision x y \<longleftrightarrow> x \<noteq> y \<and> Sum256 x = Sum256 y"

text \<open>The run of \<^verbatim>\<open>main\<close>, with the clock reading 1700000000 when the chain is created and
  1700112152 when the search starts, and a runtime that doubles capacities.\<close>

definition main_heap :: heap where
  "main_heap = \<lparr>arrays = (\<lambda>a i. zero_transaction), next_addr = 1\<rparr>"

definition main_grow :: "nat \<Rightarrow> nat" where
  "main_grow c = 2 * c"

definition main_created :: blockchain where
  "main_created = createBlockchain main_heap 1700000000"

definition main_pooled :: "heap \<times> blockchain" where
  "main_pooled = addTransactions main_grow main_heap main_created
     [(''Alice'', ''Bob'', 0x4049000000000000), (''Bob'', ''Charlie'', 0x4039000000000000)]"

definition main_committed :: blockchain where
  "main_committed = addBlock (fst main_pooled) (snd main_pooled) 0 1700112152
     (Hash (last (Chain (snd main_pooled))))"

section \<open>Properties of the library functions\<close>

lemma length_be_bytes4: "length (be_bytes4 n) = 4"
  by (simp add: be_bytes4_def)

lemma length_digest_bytes: "length (digest_bytes s) = 32"
  by (cases s rule: digest_bytes.cases) (simp add: length_be_bytes4)

lemma length_Sum256: "length (Sum256 m) = 32"
  by (simp add: Sum256_def length_digest_bytes)

lemma length_EncodeToString: "length (EncodeToString src) = 2 * length src"
  by (induction src) (simp_all add: EncodeToString_def)

lemma length_hextable: "length hextable = 16"
  by (simp add: hextable_def)

lemma nibbles_of_byte: "unat (v :: byte) div 16 < 16" "unat v mod 16 < 16"
proof -
  have "unat v < 2 ^ LENGTH(8)" by (rule unsigned_less)
  then show "unat v div 16 < 16" by simp
  show "unat v mod 16 < 16" by simp
qed

lemma set_EncodeToString: "set (EncodeToString src) \<subseteq> set hextable"
proof -
  have "hextable ! (unat v div 16) \<in> set hextable" "hextable ! (unat v mod 16) \<in> set hextable" for v :: byte
    using nibbles_of_byte [of v] by (simp_all add: length_hextable)
  then show ?thesis
    by (auto simp: EncodeToString_def)
qed

lemma length_calculateHash: "length (calculateHash h b) = 64"
  by (simp add: calculateHash_def length_EncodeToString length_Sum256)

lemma isProofValid_Inr:
  "isProofValid h lastBlock nonce transactions ts =
     Inr (take 4 (calculateHash h (candidate lastBlock nonce transactions ts)) = ''0000'')"
  by (simp add: isProofValid_def Let_def length_calculateHash)

lemma elems_go_append:
  "go_append grow h s x = (h', s') \<Longrightarrow> elems h' s' = elems h s @ [x]"
  by (auto simp: go_append_def elems_def split: if_splits)

lemma hashInput_concat:
  "hashInput h b =
     Sprintf_d (Index b) @ Sprintf_d (Timestamp b) @ Sprintf_d (Nonce b) @ PreviousHash b @
     Sprintf_d (of_nat (len (Transactions b))) @
     concat (map (\<lambda>tx. Sender tx @ Recipient tx @ Sprintf_f (Amount tx)) (elems h (Transactions b)))"
proof -
  have "foldl (\<lambda>acc tx. acc @ f tx) a xs = a @ concat (map f xs)" for f :: "transaction \<Rightarrow> string" and a xs
    by (induction xs arbitrary: a) simp_all
  then show ?thesis
    by (simp add: hashInput_def)
qed

lemma calculateHash_Hash_irrelevant: "calculateHash h (b\<lparr>Hash := x\<rparr>) = calculateHash h b"
  by (simp add: calculateHash_def hashInput_def)

section \<open>The search loop\<close>

lemma isProofValid_cases:
  "isProofValid h lb n txs ts = Inr True \<or> isProofValid h lb n txs ts = Inr False"
  by (simp add: isProofValid_Inr)

lemma search_valid:
  "isProofValid h lb n txs ts = Inr True \<Longrightarrow> search h lb txs ts n = Some (Inr n)"
  by (subst search.simps) simp

lemma search_invalid:
  "isProofValid h lb n txs ts = Inr False \<Longrightarrow> search h lb txs ts n = search h lb txs ts (n + 1)"
  by (subst search.simps) simp

lemma search_finds:
  "isProofValid h lb (n + of_nat d) txs ts = Inr True \<Longrightarrow>
   (\<And>j. j < d \<Longrightarrow> isProofValid h lb (n + of_nat j) txs ts = Inr False) \<Longrightarrow>
   search h lb txs ts n = Some (Inr (n + of_nat d))"
proof (induction d arbitrary: n)
  case 0
  then show ?case by (simp add: search_valid)
next
  case (Suc d)
  have "isProofValid h lb (n + of_nat 0) txs ts = Inr False"
    by (rule Suc.prems(2)) simp
  then have step: "search h lb txs ts n = search h lb txs ts (n + 1)"
    by (simp add: search_invalid)
  have "search h lb txs ts (n + 1) = Some (Inr (n + 1 + of_nat d))"
  proof (rule Suc.IH)
    show "isProofValid h lb (n + 1 + of_nat d) txs ts = Inr True"
      using Suc.prems(1) by (simp add: ac_simps)
    show "isProofValid h lb (n + 1 + of_nat j) txs ts = Inr False" if "j < d" for j
      using Suc.prems(2) [of "Suc j"] that by (simp add: ac_simps)
  qed
  with step show ?case by (simp add: ac_simps)
qed

lemma search_first:
  assumes "isProofValid h lb m txs ts = Inr True"
  shows "\<exists>n. search h lb txs ts 0 = Some (Inr n) \<and> isProofValid h lb n txs ts = Inr True \<and>
             (\<forall>k. isProofValid h lb k txs ts = Inr True \<longrightarrow> unat n \<le> unat k)"
proof -
  define P where "P d \<longleftrightarrow> isProofValid h lb (of_nat d) txs ts = Inr True" for d :: nat
  define d where "d = (LEAST d. P d)"
  have Pk: "P (unat k)" if "isProofValid h lb k txs ts = Inr True" for k
    using that by (simp add: P_def)
  have "P (unat m)" using assms by (rule Pk)
  then have Pd: "P d" and le: "d \<le> unat m"
    unfolding d_def by (rule LeastI, rule Least_le)
  have unat_d: "unat (of_nat d :: go_int) = d"
    using le by (rule le_unat_uoi)
  have below: "isProofValid h lb (0 + of_nat j) txs ts = Inr False" if "j < d" for j
  proof -
    have "\<not> P j" using that unfolding d_def by (rule not_less_Least)
    then show ?thesis
      using isProofValid_cases [of h lb "of_nat j" txs ts] by (simp add: P_def)
  qed
  have "search h lb txs ts 0 = Some (Inr (0 + of_nat d))"
    using Pd below by (intro search_finds) (simp_all add: P_def)
  moreover have "unat (of_nat d :: go_int) \<le> unat k" if "isProofValid h lb k txs ts = Inr True" for k
  proof -
    have "d \<le> unat k"
      unfolding d_def using Pk [OF that] by (rule Least_le)
    then show ?thesis by (simp only: unat_d)
  qed
  ultimately show ?thesis
    using Pd by (auto simp: P_def)
qed

lemma search_Some_valid:
  assumes "search h lb txs ts n = Some r"
  shows "\<exists>m. r = Inr m \<and> isProofValid h lb m txs ts = Inr True"
proof (induction rule: search.raw_induct [OF _ assms])
  case (1 search h lb txs ts n r)
  then show ?case
    using isProofValid_cases [of h lb n txs ts] by (auto split: sum.splits if_splits)
qed

section \<open>Slices, the store and the chain\<close>

lemma length_elems: "length (elems h s) = len s"
  by (simp add: elems_def)

lemma elems_empty_slice: "elems h empty_slice = []"
  by (simp add: elems_def empty_slice_def)

lemma addTransaction_Chain:
  "addTransaction grow h bc sender recipient amount = (h', bc', txid) \<Longrightarrow> Chain bc' = Chain bc"
  by (auto simp: addTransaction_def Let_def split: prod.splits)

lemma addTransaction_txid:
  "addTransaction grow h bc sender recipient amount = (h', bc', txid) \<Longrightarrow>
   txid = EncodeToString (Sum256 (map of_char (sender @ recipient @ Sprintf_f amount)))"
  by (auto simp: addTransaction_def Let_def generateTransactionID_def split: prod.splits)

lemma addTransaction_elems:
  "addTransaction grow h bc sender recipient amount = (h', bc', txid) \<Longrightarrow>
   elems h' (Mempool bc') = elems h (Mempool bc) @
     [\<lparr>Sender = sender, Recipient = recipient, Amount = amount, TXID = txid\<rparr>]"
  by (auto simp: addTransaction_def Let_def split: prod.splits dest!: elems_go_append)

lemma go_append_frame:
  assumes "go_append grow h s x = (h', s')" and "a < next_addr h" and "cap s = 0 \<or> a \<noteq> arr s"
  shows "arrays h' a = arrays h a"
  using assms by (auto simp: go_append_def split: if_splits)

lemma go_append_next:
  assumes "go_append grow h s x = (h', s')" and "arr s < next_addr h"
  shows "next_addr h \<le> next_addr h'" and "arr s' < next_addr h'"
    and "cap s' = 0 \<or> arr s' = arr s \<and> 0 < cap s \<or> arr s' = next_addr h"
  using assms by (auto simp: go_append_def split: if_splits)

lemma addTransaction_invariant:
  assumes step: "addTransaction grow h bc sender recipient amount = (h', bc', txid)"
    and alloc: "allocated h bc" and priv: "pool_private bc"
  shows "allocated h' bc'" and "pool_private bc'"
    and "\<forall>b \<in> set (Chain bc). elems h' (Transactions b) = elems h (Transactions b)"
proof -
  obtain s' where app: "go_append grow h (Mempool bc)
      \<lparr>Sender = sender, Recipient = recipient, Amount = amount,
       TXID = generateTransactionID \<lparr>Sender = sender, Recipient = recipient, Amount = amount, TXID = []\<rparr>\<rparr>
      = (h', s')"
    and bc': "bc' = bc\<lparr>Mempool := s'\<rparr>"
    using step by (auto simp: addTransaction_def Let_def split: prod.splits)
  have pool: "arr (Mempool bc) < next_addr h"
    and blocks: "\<And>b. b \<in> set (Chain bc) \<Longrightarrow> arr (Transactions b) < next_addr h"
    using alloc by (auto simp: allocated_def list_all_iff)
  note nxt = go_append_next [OF app pool]
  show "allocated h' bc'"
    using nxt(1,2) blocks by (fastforce simp: allocated_def list_all_iff bc')
  show "pool_private bc'"
    using nxt(3) priv blocks by (fastforce simp: pool_private_def list_all_iff bc')
  show "\<forall>b \<in> set (Chain bc). elems h' (Transactions b) = elems h (Transactions b)"
  proof
    fix b assume b: "b \<in> set (Chain bc)"
    have "cap (Mempool bc) = 0 \<or> arr (Transactions b) \<noteq> arr (Mempool bc)"
      using priv b by (auto simp: pool_private_def list_all_iff)
    with app blocks [OF b] have "arrays h' (arr (Transactions b)) = arrays h (arr (Transactions b))"
      by (rule go_append_frame)
    then show "elems h' (Transactions b) = elems h (Transactions b)"
      by (simp add: elems_def)
  qed
qed

lemma addTransactions_frame:
  assumes "addTransactions grow h bc calls = (h', bc')" and "allocated h bc" and "pool_private bc"
  shows "Chain bc' = Chain bc \<and> allocated h' bc' \<and> pool_private bc' \<and>
         (\<forall>b \<in> set (Chain bc). elems h' (Transactions b) = elems h (Transactions b))"
  using assms
proof (induction grow h bc calls rule: addTransactions.induct)
  case (1 grow h bc)
  then show ?case by simp
next
  case (2 grow h bc sender recipient amount calls)
  obtain h1 bc1 txid where step: "addTransaction grow h bc sender recipient amount = (h1, bc1, txid)"
    by (cases "addTransaction grow h bc sender recipient amount") auto
  note inv = addTransaction_invariant [OF step "2.prems"(2,3)]
  have chain: "Chain bc1 = Chain bc"
    using step by (rule addTransaction_Chain)
  have rest: "addTransactions grow h1 bc1 calls = (h', bc')"
    using "2.prems"(1) step by simp
  have "Chain bc' = Chain bc1 \<and> allocated h' bc' \<and> pool_private bc' \<and>
         (\<forall>b \<in> set (Chain bc1). elems h' (Transactions b) = elems h1 (Transactions b))"
    using step rest inv(1,2) by (intro "2.IH") auto
  with inv(3) chain show ?case by simp
qed

lemma addBlock_invariant:
  assumes "allocated h bc"
  shows "allocated h (addBlock h bc nonce ts ph)" and "pool_private (addBlock h bc nonce ts ph)"
  using assms by (auto simp: allocated_def pool_private_def addBlock_def Let_def empty_slice_def)

lemma createBlockchain_invariant:
  assumes "0 < next_addr h"
  shows "allocated h (createBlockchain h now)" and "pool_private (createBlockchain h now)"
  using assms
  by (auto simp: allocated_def pool_private_def createBlockchain_def createGenesisBlock_def Let_def empty_slice_def)

lemma reachable_invariant:
  "reachable grow h bc \<Longrightarrow> allocated h bc \<and> pool_private bc"
proof (induction rule: reachable.induct)
  case (created h now)
  then show ?case by (simp add: createBlockchain_invariant)
next
  case (appended h bc sender recipient amount h' bc' txid)
  then show ?case by (auto dest: addTransaction_invariant(1,2))
next
  case (mined h bc now r)
  then show ?case by simp
next
  case (committed h bc nonce timestamp)
  then show ?case by (simp add: addBlock_invariant)
qed

lemma chain_linked_snoc:
  assumes "Chain bc \<noteq> []"
    and "\<forall>i<length (Chain bc). Index (Chain bc ! i) = of_nat i"
    and "\<forall>i. 0 < i \<and> i < length (Chain bc) \<longrightarrow> PreviousHash (Chain bc ! i) = Hash (Chain bc ! (i - 1))"
  shows "(\<forall>i<length (Chain (addBlock h bc nonce ts (Hash (last (Chain bc))))).
            Index (Chain (addBlock h bc nonce ts (Hash (last (Chain bc)))) ! i) = of_nat i) \<and>
         (\<forall>i. 0 < i \<and> i < length (Chain (addBlock h bc nonce ts (Hash (last (Chain bc))))) \<longrightarrow>
            PreviousHash (Chain (addBlock h bc nonce ts (Hash (last (Chain bc)))) ! i) =
            Hash (Chain (addBlock h bc nonce ts (Hash (last (Chain bc)))) ! (i - 1)))"
  using assms
  by (auto simp: addBlock_def Let_def nth_append last_conv_nth less_Suc_eq)

lemma reachable_linked:
  "reachable grow h bc \<Longrightarrow>
     Chain bc \<noteq> [] \<and> (\<forall>i<length (Chain bc). Index (Chain bc ! i) = of_nat i) \<and>
     (\<forall>i. 0 < i \<and> i < length (Chain bc) \<longrightarrow> PreviousHash (Chain bc ! i) = Hash (Chain bc ! (i - 1)))"
proof (induction rule: reachable.induct)
  case (created h now)
  then show ?case by (simp add: createBlockchain_def createGenesisBlock_def Let_def)
next
  case (appended h bc sender recipient amount h' bc' txid)
  then show ?case by (simp add: addTransaction_Chain)
next
  case (mined h bc now r)
  then show ?case by simp
next
  case (committed h bc nonce timestamp)
  then have "Chain (addBlock h bc nonce timestamp (Hash (last (Chain bc)))) \<noteq> []"
    by (simp add: addBlock_def Let_def)
  with committed chain_linked_snoc [of bc h nonce timestamp] show ?case by blast
qed

section \<open>What the hashed string determines\<close>

lemma digit_char_inj: "i < 10 \<Longrightarrow> j < 10 \<Longrightarrow> digit_char i = digit_char j \<Longrightarrow> i = j"
proof -
  assume "i < 10" "j < 10" "digit_char i = digit_char j"
  moreover have "distinct ''0123456789''" by simp
  ultimately show "i = j"
    by (simp add: digit_char_def nth_eq_iff_index_eq)
qed

lemma digit_char_in: "i < 10 \<Longrightarrow> digit_char i \<in> set ''0123456789''"
  unfolding digit_char_def by (rule nth_mem) simp

lemma nat_dec_nonempty: "nat_dec n \<noteq> []"
  by (subst nat_dec.simps) simp

lemma set_nat_dec: "set (nat_dec n) \<subseteq> set ''0123456789''"
proof (induction n rule: nat_dec.induct)
  case (1 n)
  show ?case
  proof (cases "n < 10")
    case True
    then show ?thesis
      using digit_char_in [of n] by (subst nat_dec.simps) simp
  next
    case False
    have "digit_char (n mod 10) \<in> set ''0123456789''"
      by (rule digit_char_in) simp
    with False "1.IH" show ?thesis
      by (subst nat_dec.simps) simp
  qed
qed

lemma nat_dec_inj: "nat_dec m = nat_dec n \<Longrightarrow> m = n"
proof (induction m arbitrary: n rule: nat_dec.induct)
  case (1 m)
  show ?case
  proof (cases "m < 10")
    case m: True
    show ?thesis
    proof (cases "n < 10")
      case True
      with m "1.prems" show ?thesis
        by (simp add: nat_dec.simps [of m] nat_dec.simps [of n] digit_char_inj)
    next
      case False
      with m "1.prems" nat_dec_nonempty [of "n div 10"] show ?thesis
        by (simp add: nat_dec.simps [of m] nat_dec.simps [of n])
    qed
  next
    case m: False
    show ?thesis
    proof (cases "n < 10")
      case True
      with m "1.prems" nat_dec_nonempty [of "m div 10"] show ?thesis
        by (simp add: nat_dec.simps [of m] nat_dec.simps [of n])
    next
      case False
      with m "1.prems" have eq: "nat_dec (m div 10) = nat_dec (n div 10)"
        and dig: "digit_char (m mod 10) = digit_char (n mod 10)"
        by (simp_all add: nat_dec.simps [of m] nat_dec.simps [of n])
      from eq have "m div 10 = n div 10"
        using m by (intro "1.IH") simp_all
      moreover from dig have "m mod 10 = n mod 10"
        by (intro digit_char_inj) simp_all
      ultimately show ?thesis
        by (metis div_mult_mod_eq)
    qed
  qed
qed

lemma minus_not_in_nat_dec: "CHR ''-'' # s \<noteq> nat_dec n"
proof
  assume "CHR ''-'' # s = nat_dec n"
  then have "CHR ''-'' \<in> set (nat_dec n)"
    by (metis list.set_intros(1))
  with set_nat_dec [of n] show False by auto
qed

lemma Sprintf_d_inj: "Sprintf_d a = Sprintf_d b \<Longrightarrow> a = b"
proof -
  assume eq: "Sprintf_d a = Sprintf_d b"
  have "sint a = sint b"
  proof (cases "sint a < 0"; cases "sint b < 0")
    assume "sint a < 0" "sint b < 0"
    with eq have "nat (- sint a) = nat (- sint b)"
      by (simp add: Sprintf_d_def nat_dec_inj)
    with \<open>sint a < 0\<close> \<open>sint b < 0\<close> show ?thesis by simp
  next
    assume "sint a < 0" "\<not> sint b < 0"
    with eq minus_not_in_nat_dec show ?thesis
      by (simp add: Sprintf_d_def)
  next
    assume "\<not> sint a < 0" "sint b < 0"
    with eq minus_not_in_nat_dec [of "nat_dec (nat (- sint b))" "nat (sint a)"] show ?thesis
      by (simp add: Sprintf_d_def)
  next
    assume "\<not> sint a < 0" "\<not> sint b < 0"
    with eq have "nat (sint a) = nat (sint b)"
      by (simp add: Sprintf_d_def nat_dec_inj)
    with \<open>\<not> sint a < 0\<close> \<open>\<not> sint b < 0\<close> show ?thesis by simp
  qed
  then show "a = b" by (rule signed_word_eqI)
qed

lemma hashInput_Nonce:
  "hashInput h (b\<lparr>Nonce := n\<rparr>) = hashInput h b \<longleftrightarrow> n = Nonce b"
  by (auto simp: hashInput_concat dest: Sprintf_d_inj)

lemma hashInput_Timestamp:
  "hashInput h (b\<lparr>Timestamp := t\<rparr>) = hashInput h b \<longleftrightarrow> t = Timestamp b"
  by (auto simp: hashInput_concat dest: Sprintf_d_inj)

lemma elems_set_transaction:
  "elems (set_transaction h b k tx) (Transactions b) = (elems h (Transactions b))[k := tx]"
  by (rule nth_equalityI) (auto simp: elems_def set_transaction_def nth_list_update)

lemma concat_map_update:
  assumes "k < length xs"
  shows "concat (map g (xs[k := y])) = concat (map g xs) \<longleftrightarrow> g y = g (xs ! k)"
proof -
  have "xs = take k xs @ xs ! k # drop (Suc k) xs"
    using assms by (rule id_take_nth_drop)
  moreover have "xs[k := y] = take k xs @ y # drop (Suc k) xs"
    using assms by (rule upd_conv_take_nth_drop)
  ultimately have "concat (map g xs) = concat (map g (take k xs)) @ g (xs ! k) @ concat (map g (drop (Suc k) xs))"
    and "concat (map g (xs[k := y])) = concat (map g (take k xs)) @ g y @ concat (map g (drop (Suc k) xs))"
    by (metis concat.simps(2) concat_append list.simps(9) map_append)+
  then show ?thesis by simp
qed

lemma hashInput_set_transaction:
  assumes "k < len (Transactions b)"
  shows "hashInput (set_transaction h b k tx) b = hashInput h b \<longleftrightarrow>
         Sender tx @ Recipient tx @ Sprintf_f (Amount tx) =
         Sender (elems h (Transactions b) ! k) @ Recipient (elems h (Transactions b) ! k) @
         Sprintf_f (Amount (elems h (Transactions b) ! k))"
  using assms
  by (simp add: hashInput_concat elems_set_transaction length_elems
      concat_map_update [where g = "\<lambda>tx. Sender tx @ Recipient tx @ Sprintf_f (Amount tx)"])

lemma hextable_inj: "i < 16 \<Longrightarrow> j < 16 \<Longrightarrow> hextable ! i = hextable ! j \<Longrightarrow> i = j"
proof -
  assume "i < 16" "j < 16" "hextable ! i = hextable ! j"
  moreover have "distinct hextable" by (simp add: hextable_def)
  ultimately show "i = j"
    by (simp add: nth_eq_iff_index_eq length_hextable)
qed

lemma EncodeToString_inj: "EncodeToString xs = EncodeToString ys \<Longrightarrow> xs = ys"
proof (induction xs arbitrary: ys)
  case Nil
  then show ?case by (cases ys) (simp_all add: EncodeToString_def)
next
  case (Cons x xs)
  then obtain y ys' where ys: "ys = y # ys'"
    by (cases ys) (simp_all add: EncodeToString_def)
  from Cons.prems have hi: "hextable ! (unat x div 16) = hextable ! (unat y div 16)"
    and lo: "hextable ! (unat x mod 16) = hextable ! (unat y mod 16)"
    and rest: "EncodeToString xs = EncodeToString ys'"
    by (simp_all add: ys EncodeToString_def)
  have "unat x div 16 = unat y div 16"
    using hi by (intro hextable_inj nibbles_of_byte)
  moreover have "unat x mod 16 = unat y mod 16"
    using lo by (intro hextable_inj nibbles_of_byte)
  ultimately have "unat x = unat y"
    by (metis div_mult_mod_eq)
  then have "x = y" by (rule word_unat_eq_iff [THEN iffD2])
  with Cons.IH [OF rest] show ?case by (simp add: ys)
qed

lemma calculateHash_eq_iff:
  "calculateHash h b = calculateHash h' b' \<longleftrightarrow>
   Sum256 (map of_char (hashInput h b)) = Sum256 (map of_char (hashInput h' b'))"
  by (auto simp: calculateHash_def dest: EncodeToString_inj)

lemma unat_of_char: "unat (of_char c :: byte) = of_char c"
proof -
  have "unat (of_nat (of_char c) :: byte) = of_char c mod 2 ^ LENGTH(8)"
    by (rule unat_of_nat)
  then show ?thesis
    by (simp add: of_nat_of_char)
qed

lemma bytes_inj: "map of_char s = (map of_char s' :: byte list) \<Longrightarrow> s = s'"
proof -
  assume eq: "map of_char s = (map of_char s' :: byte list)"
  have nat_of: "map unat (map of_char t :: byte list) = map of_char t" for t
    by (induction t) (simp_all add: unat_of_char)
  from eq have "map unat (map of_char s :: byte list) = map unat (map of_char s' :: byte list)"
    by (rule arg_cong)
  then have "map (of_char :: char \<Rightarrow> nat) s = map of_char s'"
    by (simp only: nat_of)
  then show "s = s'"
    by (simp add: inj_map_eq_map [OF inj_of_char])
qed

lemma calculateHash_collision:
  assumes "hashInput h b \<noteq> hashInput h' b'"
  shows "(calculateHash h b = calculateHash h' b') =
    sha256_collision (map of_char (hashInput h b)) (map of_char (hashInput h' b'))"
  using assms bytes_inj [of "hashInput h b" "hashInput h' b'"]
  by (auto simp: calculateHash_eq_iff sha256_collision_def)

text \<open>There are infinitely many senders and finitely many strings of 64 characters, so
  some two senders give a block the same hash.\<close>

lemma sender_tamper_collides:
  "\<exists>s s'. s \<noteq> s' \<and>
     calculateHash (set_transaction h b k (tx\<lparr>Sender := s\<rparr>)) b =
     calculateHash (set_transaction h b k (tx\<lparr>Sender := s'\<rparr>)) b"
proof -
  define f where "f s = calculateHash (set_transaction h b k (tx\<lparr>Sender := s\<rparr>)) b" for s
  have "range f \<subseteq> {xs. set xs \<subseteq> UNIV \<and> length xs = 64}"
    by (auto simp: f_def length_calculateHash)
  moreover have "finite {xs :: string. set xs \<subseteq> UNIV \<and> length xs = 64}"
    by (rule finite_lists_length_eq) simp
  ultimately have fin: "finite (range f)"
    by (rule finite_subset)
  have "\<not> inj f"
  proof
    assume "inj f"
    with fin have "finite (UNIV :: string set)"
      by (rule finite_imageD)
    then show False
      by (simp add: infinite_UNIV_listI)
  qed
  then show ?thesis
    by (auto simp: inj_on_def f_def)
qed

section \<open>Signed readings of 64-bit words\<close>

lemma sint_of_nat_small:
  "n < 2 ^ 63 \<Longrightarrow> sint (of_nat n :: go_int) = int n"
proof -
  assume "n < 2 ^ 63"
  then have "int n < 2 ^ 63" by (metis of_nat_less_numeral_power_cancel_iff)
  then have "signed_take_bit 63 (int n) = int n"
    by (intro signed_take_bit_int_eq_self) simp_all
  then show ?thesis by (simp add: signed_of_nat)
qed

lemma unat_small_sint:
  "unat (k :: go_int) < 2 ^ 63 \<Longrightarrow> sint k = int (unat k)"
  using sint_of_nat_small by fastforce

lemma sint_nonneg_unat:
  assumes "0 \<le> sint (k :: go_int)"
  shows "unat k < 2 ^ 63"
proof (rule ccontr)
  assume "\<not> unat k < 2 ^ 63"
  then have "2 ^ 63 \<le> int (unat k)"
    by (metis not_less numeral_power_le_of_nat_cancel_iff)
  then have big: "2 ^ 63 \<le> uint k" by simp
  then have "signed_take_bit 63 (uint k) \<le> uint k - 2 ^ Suc 63"
    by (rule signed_take_bit_int_less_eq)
  then have a: "signed_take_bit 63 (uint k) \<le> uint k - 18446744073709551616" by simp
  have "uint k < 2 ^ LENGTH(64)" by (rule unsigned_less)
  then have b: "uint k < 18446744073709551616" by simp
  from a b have "signed_take_bit 63 (uint k) < 0" by linarith
  then have "sint k < 0" by (simp add: sint_uint)
  with assms show False by simp
qed

lemma addTransactions_Chain:
  "addTransactions grow h bc calls = (h', bc') \<Longrightarrow> Chain bc' = Chain bc"
proof (induction grow h bc calls rule: addTransactions.induct)
  case (1 grow h bc)
  then show ?case by simp
next
  case (2 grow h bc sender recipient amount calls)
  then show ?case
    by (auto split: prod.splits dest: addTransaction_Chain)
qed

lemma reachable_addTransactions:
  "reachable grow h bc \<Longrightarrow> addTransactions grow h bc calls = (h', bc') \<Longrightarrow> reachable grow h' bc'"
proof (induction grow h bc calls rule: addTransactions.induct)
  case (1 grow h bc)
  then show ?case by simp
next
  case (2 grow h bc sender recipient amount calls)
  obtain h1 bc1 txid where step: "addTransaction grow h bc sender recipient amount = (h1, bc1, txid)"
    by (cases "addTransaction grow h bc sender recipient amount") auto
  with "2.prems"(1) have "reachable grow h1 bc1" by (rule reachable.appended)
  moreover have "addTransactions grow h1 bc1 calls = (h', bc')"
    using "2.prems"(2) step by simp
  ultimately show ?case
    using step by (intro "2.IH") auto
qed

section \<open>The run of main\<close>

lemma main_pooled_Chain: "Chain (snd main_pooled) = Chain main_created"
  unfolding main_pooled_def by (rule addTransactions_Chain) (rule surjective_pairing)

lemma main_created_Chain: "Chain main_created \<noteq> []"
  by (simp add: main_created_def createBlockchain_def createGenesisBlock_def Let_def)

lemma main_pooled_reachable: "reachable main_grow (fst main_pooled) (snd main_pooled)"
proof (rule reachable_addTransactions)
  show "reachable main_grow main_heap main_created"
    unfolding main_created_def by (rule reachable.created) (simp add: main_heap_def)
  show "addTransactions main_grow main_heap main_created
     [(''Alice'', ''Bob'', 0x4049000000000000), (''Bob'', ''Charlie'', 0x4039000000000000)] =
     (fst main_pooled, snd main_pooled)"
    by (simp add: main_pooled_def)
qed

lemma main_committed_reachable: "reachable main_grow (fst main_pooled) main_committed"
  unfolding main_committed_def
  using main_pooled_reachable by (rule reachable.committed) (simp add: main_pooled_Chain main_created_Chain)

lemma main_pool_len: "len (Mempool (snd main_pooled)) = 2"
  by (simp add: main_pooled_def main_created_def createBlockchain_def createGenesisBlock_def
      addTransaction_def go_append_def Let_def empty_slice_def main_grow_def main_heap_def)

lemma main_pool_elems:
  "elems (fst main_pooled) (Mempool (snd main_pooled)) =
    [\<lparr>Sender = ''Alice'', Recipient = ''Bob'', Amount = 0x4049000000000000,
      TXID = generateTransactionID
        \<lparr>Sender = ''Alice'', Recipient = ''Bob'', Amount = 0x4049000000000000, TXID = []\<rparr>\<rparr>,
     \<lparr>Sender = ''Bob'', Recipient = ''Charlie'', Amount = 0x4039000000000000,
      TXID = generateTransactionID
        \<lparr>Sender = ''Bob'', Recipient = ''Charlie'', Amount = 0x4039000000000000, TXID = []\<rparr>\<rparr>]"
  by (simp add: main_pooled_def main_created_def createBlockchain_def createGenesisBlock_def
      addTransaction_def go_append_def Let_def empty_slice_def main_grow_def main_heap_def elems_def)

lemma main_committed_last:
  "Transactions (last (Chain main_committed)) = Mempool (snd main_pooled)"
  by (simp add: main_committed_def addBlock_def Let_def)

lemmas format_defs = Sprintf_d_def nat_dec.simps digit_char_def
  Sprintf_f_def fixed6_def scaled6_def round_half_even_def

lemma Sprintf_f_50: "Sprintf_f 0x4049000000000000 = ''50.000000''"
  by (simp add: format_defs)

lemma Sprintf_f_50_next: "Sprintf_f 0x4049000000000001 = ''50.000000''"
  by (simp add: format_defs)

section \<open>The claims\<close>

text \<open>
  C3. A chain returned by \<^verbatim>\<open>createBlockchain\<close> has length 1 and an empty pool. Its one
  block has index 0, previous hash \<open>''0''\<close>, nonce 100, no transactions, the clock reading
  as timestamp, and as stored hash the value of \<^verbatim>\<open>calculateHash\<close> on that block.
\<close>

theorem createBlockchain_genesis:
  "length (Chain (createBlockchain h now)) = 1 \<and>
   Mempool (createBlockchain h now) = empty_slice \<and>
   elems h (Mempool (createBlockchain h now)) = [] \<and>
   Index (hd (Chain (createBlockchain h now))) = 0 \<and>
   sint (Index (hd (Chain (createBlockchain h now)))) = 0 \<and>
   Timestamp (hd (Chain (createBlockchain h now))) = now \<and>
   PreviousHash (hd (Chain (createBlockchain h now))) = ''0'' \<and>
   Nonce (hd (Chain (createBlockchain h now))) = 100 \<and>
   sint (Nonce (hd (Chain (createBlockchain h now)))) = 100 \<and>
   elems h (Transactions (hd (Chain (createBlockchain h now)))) = [] \<and>
   Hash (hd (Chain (createBlockchain h now))) = calculateHash h (hd (Chain (createBlockchain h now)))"
  by (simp add: createBlockchain_def createGenesisBlock_def Let_def elems_empty_slice
      calculateHash_def hashInput_def)

text \<open>
  C2. After \<^verbatim>\<open>addBlock\<close> the pool is empty and the chain is the old chain with one block
  appended. That block has the old chain length as index (as a signed number too, for
  every length a Go slice can have), the given timestamp, nonce and previous hash, the
  pool's slice as it stood at the call as transaction list, and as stored hash the value
  of \<^verbatim>\<open>calculateHash\<close> on the block.
\<close>

theorem addBlock_commit:
  "Mempool (addBlock h bc nonce ts ph) = empty_slice \<and>
   elems h (Mempool (addBlock h bc nonce ts ph)) = [] \<and>
   length (Chain (addBlock h bc nonce ts ph)) = length (Chain bc) + 1 \<and>
   butlast (Chain (addBlock h bc nonce ts ph)) = Chain bc \<and>
   Index (last (Chain (addBlock h bc nonce ts ph))) = of_nat (length (Chain bc)) \<and>
   (length (Chain bc) < 2 ^ 63 \<longrightarrow>
      sint (Index (last (Chain (addBlock h bc nonce ts ph)))) = int (length (Chain bc))) \<and>
   Timestamp (last (Chain (addBlock h bc nonce ts ph))) = ts \<and>
   Nonce (last (Chain (addBlock h bc nonce ts ph))) = nonce \<and>
   PreviousHash (last (Chain (addBlock h bc nonce ts ph))) = ph \<and>
   Transactions (last (Chain (addBlock h bc nonce ts ph))) = Mempool bc \<and>
   elems h (Transactions (last (Chain (addBlock h bc nonce ts ph)))) = elems h (Mempool bc) \<and>
   Hash (last (Chain (addBlock h bc nonce ts ph))) =
     calculateHash h (last (Chain (addBlock h bc nonce ts ph)))"
  by (simp add: addBlock_def Let_def elems_empty_slice calculateHash_def hashInput_def
      sint_of_nat_small)

theorem addBlock_commit_witness:
  "length (Chain main_created) < 2 ^ 63 \<and>
   sint (Index (last (Chain (addBlock main_heap main_created 7 1700000001 ''abc'')))) =
     int (length (Chain main_created)) \<and>
   length (Chain (addBlock main_heap main_created 7 1700000001 ''abc'')) = 2 \<and>
   elems main_heap (Mempool (addBlock main_heap main_created 7 1700000001 ''abc'')) = []"
proof -
  have len: "length (Chain main_created) = 1"
    by (simp add: main_created_def createBlockchain_def createGenesisBlock_def Let_def)
  then have small: "length (Chain main_created) < 2 ^ 63" by simp
  note commit = addBlock_commit [of main_heap main_created 7 1700000001 "''abc''"]
  from commit small
  have "sint (Index (last (Chain (addBlock main_heap main_created 7 1700000001 ''abc'')))) =
     int (length (Chain main_created))"
    by blast
  moreover from commit len
  have "length (Chain (addBlock main_heap main_created 7 1700000001 ''abc'')) = 2"
    by simp
  moreover from commit
  have "elems main_heap (Mempool (addBlock main_heap main_created 7 1700000001 ''abc'')) = []"
    by blast
  ultimately show ?thesis
    using small by blast
qed

text \<open>
  C10. The value of \<^verbatim>\<open>calculateHash\<close> is a string of exactly 64 characters, each one of
  \<open>0123456789abcdef\<close>. So \<^verbatim>\<open>guessHash[:4]\<close> in \<^verbatim>\<open>isProofValid\<close> is in bounds:
  \<^verbatim>\<open>isProofValid\<close> never panics and returns whether the first four characters of the
  candidate's hash are \<open>0000\<close>.
\<close>

theorem calculateHash_hex64:
  "length (calculateHash h b) = 64 \<and>
   set (calculateHash h b) \<subseteq> set ''0123456789abcdef'' \<and>
   isProofValid h lastBlock nonce transactions ts \<noteq> Inl e \<and>
   isProofValid h lastBlock nonce transactions ts =
     Inr (take 4 (calculateHash h (candidate lastBlock nonce transactions ts)) = ''0000'')"
proof -
  have "set (calculateHash h b) \<subseteq> set hextable"
    unfolding calculateHash_def by (rule set_EncodeToString)
  then have "set (calculateHash h b) \<subseteq> set ''0123456789abcdef''"
    by (simp only: hextable_def)
  then show ?thesis
    by (simp only: length_calculateHash isProofValid_Inr) simp
qed

theorem calculateHash_hex64_witness:
  "length (calculateHash main_heap (hd (Chain main_created))) = 64 \<and>
   set (calculateHash main_heap (hd (Chain main_created))) \<subseteq> set ''0123456789abcdef'' \<and>
   isProofValid main_heap (hd (Chain main_created)) 0 empty_slice 5 \<noteq> Inl SliceBoundsOutOfRange"
  using calculateHash_hex64 [of main_heap "hd (Chain main_created)" "hd (Chain main_created)" 0
      empty_slice 5 SliceBoundsOutOfRange]
  by blast

text \<open>
  C6. \<^verbatim>\<open>calculateHash\<close> is a function of the block's index, timestamp, nonce, previous hash
  and list of transactions: two blocks that agree on these, in whatever stores their
  lists live and whatever their stored hashes and slice capacities are, have the same
  hash.
\<close>

theorem calculateHash_deterministic:
  assumes "Index b = Index b'" and "Timestamp b = Timestamp b'" and "Nonce b = Nonce b'"
    and "PreviousHash b = PreviousHash b'"
    and "elems h (Transactions b) = elems h' (Transactions b')"
  shows "calculateHash h b = calculateHash h' b'"
proof -
  have "len (Transactions b) = len (Transactions b')"
    using assms(5) length_elems by metis
  with assms show ?thesis
    by (simp add: calculateHash_def hashInput_concat)
qed

theorem calculateHash_deterministic_witness:
  "elems main_heap \<lparr>arr = 3, len = 1, cap = 1\<rparr> =
     elems (main_heap\<lparr>next_addr := 9\<rparr>) \<lparr>arr = 5, len = 1, cap = 4\<rparr> \<and>
   calculateHash main_heap
     \<lparr>Index = 1, Timestamp = 2, Transactions = \<lparr>arr = 3, len = 1, cap = 1\<rparr>, Nonce = 3,
      PreviousHash = ''ab'', Hash = ''x''\<rparr> =
   calculateHash (main_heap\<lparr>next_addr := 9\<rparr>)
     \<lparr>Index = 1, Timestamp = 2, Transactions = \<lparr>arr = 5, len = 1, cap = 4\<rparr>, Nonce = 3,
      PreviousHash = ''ab'', Hash = ''y''\<rparr>"
proof -
  have e: "elems main_heap \<lparr>arr = 3, len = 1, cap = 1\<rparr> =
     elems (main_heap\<lparr>next_addr := 9\<rparr>) \<lparr>arr = 5, len = 1, cap = 4\<rparr>"
    by (simp add: elems_def main_heap_def)
  show ?thesis
    using e by (intro conjI calculateHash_deterministic) simp_all
qed

text \<open>
  C7. The id \<^verbatim>\<open>addTransaction\<close> returns is \<^verbatim>\<open>generateTransactionID\<close> of the sender, the
  recipient and the amount: the hex form of the SHA-256 digest of the two strings followed
  by the amount with six decimals. It is the same in every state of the chain and the
  store, and it is the id stored on the transaction that the call appends to the pool.
  The amount of the spec's example, written 50, 50.0 or 50.00 in Go source, is the one
  float64 \<open>0x4049000000000000\<close>; the string hashed for it is \<open>AliceBob50.000000\<close>.
\<close>

theorem addTransaction_id:
  "snd (snd (addTransaction grow h bc sender recipient amount)) =
     EncodeToString (Sum256 (map of_char (sender @ recipient @ Sprintf_f amount))) \<and>
   snd (snd (addTransaction grow h bc sender recipient amount)) =
     snd (snd (addTransaction grow' h' bc' sender recipient amount)) \<and>
   last (elems (fst (addTransaction grow h bc sender recipient amount))
           (Mempool (fst (snd (addTransaction grow h bc sender recipient amount))))) =
     \<lparr>Sender = sender, Recipient = recipient, Amount = amount,
      TXID = snd (snd (addTransaction grow h bc sender recipient amount))\<rparr> \<and>
   snd (snd (addTransaction grow h bc ''Alice'' ''Bob'' 0x4049000000000000)) =
     EncodeToString (Sum256 (map of_char ''AliceBob50.000000''))"
proof -
  obtain h1 bc1 txid where step: "addTransaction grow h bc sender recipient amount = (h1, bc1, txid)"
    by (cases "addTransaction grow h bc sender recipient amount") auto
  obtain h2 bc2 txid2 where step2: "addTransaction grow' h' bc' sender recipient amount = (h2, bc2, txid2)"
    by (cases "addTransaction grow' h' bc' sender recipient amount") auto
  obtain h3 bc3 txid3 where step3:
    "addTransaction grow h bc ''Alice'' ''Bob'' 0x4049000000000000 = (h3, bc3, txid3)"
    by (cases "addTransaction grow h bc ''Alice'' ''Bob'' 0x4049000000000000") auto
  have "txid3 = EncodeToString (Sum256 (map of_char (''Alice'' @ ''Bob'' @ Sprintf_f 0x4049000000000000)))"
    using step3 by (rule addTransaction_txid)
  then have "txid3 = EncodeToString (Sum256 (map of_char ''AliceBob50.000000''))"
    by (simp only: Sprintf_f_50) simp
  with addTransaction_txid [OF step] addTransaction_txid [OF step2] addTransaction_elems [OF step]
  show ?thesis
    by (simp add: step step2 step3)
qed

text \<open>
  C4. In every state reached from \<^verbatim>\<open>createBlockchain\<close> by \<^verbatim>\<open>addTransaction\<close>,
  \<^verbatim>\<open>proofOfWork\<close> and \<^verbatim>\<open>addBlock\<close> with the last block's hash as previous hash, the chain
  is not empty, the block at position \<open>i\<close> has index \<open>i\<close> (as a signed number too, for every
  length a Go slice can have), and every block after the first has as previous hash the
  stored hash of the block before it.
\<close>

theorem reachable_chain_linked:
  assumes "reachable grow h bc"
  shows "Chain bc \<noteq> [] \<and>
    (\<forall>i<length (Chain bc). Index (Chain bc ! i) = of_nat i \<and>
        (length (Chain bc) < 2 ^ 63 \<longrightarrow> sint (Index (Chain bc ! i)) = int i)) \<and>
    (\<forall>i. 0 < i \<and> i < length (Chain bc) \<longrightarrow>
        PreviousHash (Chain bc ! i) = Hash (Chain bc ! (i - 1)))"
  using reachable_linked [OF assms] by (auto simp: sint_of_nat_small)

theorem reachable_chain_linked_witness:
  "reachable main_grow (fst main_pooled) main_committed \<and>
   length (Chain main_committed) = 2 \<and>
   Index (Chain main_committed ! 1) = 1 \<and>
   sint (Index (Chain main_committed ! 1)) = 1 \<and>
   PreviousHash (Chain main_committed ! 1) = Hash (Chain main_committed ! 0)"
proof -
  have len: "length (Chain main_committed) = 2"
    by (simp add: main_committed_def addBlock_def Let_def main_pooled_Chain main_created_def
        createBlockchain_def createGenesisBlock_def)
  from reachable_chain_linked [OF main_committed_reachable] len
  have "Index (Chain main_committed ! 1) = of_nat 1 \<and> sint (Index (Chain main_committed ! 1)) = int 1"
    and "PreviousHash (Chain main_committed ! 1) = Hash (Chain main_committed ! (1 - 1))"
    by simp_all
  with main_committed_reachable len show ?thesis by simp
qed

text \<open>
  C8. Once \<^verbatim>\<open>addBlock\<close> has committed a block, no sequence of \<^verbatim>\<open>addTransaction\<close> calls
  changes the chain: the blocks keep all their fields, and the transactions their slices
  show in the store stay what they were, although the committed block shares its array
  with the pool it was taken from. This holds in every state whose slices refer to
  allocated arrays, as those of every reachable state do. In any state at all,
  \<^verbatim>\<open>addTransaction\<close> leaves the sequence of blocks as it is.
\<close>

theorem committed_blocks_frozen:
  assumes "allocated h bc"
    and "addTransactions grow h (addBlock h bc nonce ts ph) calls = (h', bc')"
  shows "Chain bc' = Chain (addBlock h bc nonce ts ph) \<and>
    (\<forall>b \<in> set (Chain (addBlock h bc nonce ts ph)).
        elems h' (Transactions b) = elems h (Transactions b)) \<and>
    Chain (fst (snd (addTransaction grow h0 bc0 sender recipient amount))) = Chain bc0"
proof -
  have "Chain (fst (snd (addTransaction grow h0 bc0 sender recipient amount))) = Chain bc0"
    by (rule addTransaction_Chain [of grow h0 bc0 sender recipient amount
          "fst (addTransaction grow h0 bc0 sender recipient amount)" _
          "snd (snd (addTransaction grow h0 bc0 sender recipient amount))"]) simp
  with addTransactions_frame [OF assms(2) addBlock_invariant [OF assms(1)]]
  show ?thesis by simp
qed

theorem committed_blocks_frozen_witness:
  "allocated (fst main_pooled) (snd main_pooled) \<and>
   Chain (snd (addTransactions main_grow (fst main_pooled) main_committed
      [(''Carol'', ''Dave'', 0x4039000000000000), (''Dave'', ''Erin'', 0x4049000000000000)])) =
     Chain main_committed \<and>
   elems (fst (addTransactions main_grow (fst main_pooled) main_committed
      [(''Carol'', ''Dave'', 0x4039000000000000), (''Dave'', ''Erin'', 0x4049000000000000)]))
      (Transactions (last (Chain main_committed))) =
     elems (fst main_pooled) (Mempool (snd main_pooled))"
proof -
  define calls :: "(string \<times> string \<times> float64) list"
    where "calls = [(''Carol'', ''Dave'', 0x4039000000000000), (''Dave'', ''Erin'', 0x4049000000000000)]"
  define res where "res = addTransactions main_grow (fst main_pooled) main_committed calls"
  have alloc: "allocated (fst main_pooled) (snd main_pooled)"
    using reachable_invariant [OF main_pooled_reachable] by simp
  have run: "addTransactions main_grow (fst main_pooled)
      (addBlock (fst main_pooled) (snd main_pooled) 0 1700112152 (Hash (last (Chain (snd main_pooled)))))
      calls = (fst res, snd res)"
    by (simp add: res_def main_committed_def)
  note frozen = committed_blocks_frozen [OF alloc run, folded main_committed_def]
  have "last (Chain main_committed) \<in> set (Chain main_committed)"
    by (rule last_in_set) (simp add: main_committed_def addBlock_def Let_def)
  with frozen have "elems (fst res) (Transactions (last (Chain main_committed))) =
      elems (fst main_pooled) (Transactions (last (Chain main_committed)))"
    by blast
  then have "elems (fst res) (Transactions (last (Chain main_committed))) =
      elems (fst main_pooled) (Mempool (snd main_pooled))"
    by (simp only: main_committed_last)
  moreover from frozen have "Chain (snd res) = Chain main_committed"
    by blast
  ultimately show ?thesis
    using alloc unfolding res_def calls_def by blast
qed

text \<open>
  C1. Where the chain is not empty and some nonce makes \<^verbatim>\<open>isProofValid\<close> true for the last
  block, the pool and the clock reading taken at the start, \<^verbatim>\<open>proofOfWork\<close> returns a
  nonce together with that clock reading. \<^verbatim>\<open>isProofValid\<close> is true of the returned nonce,
  the candidate block's hash starts with \<open>0000\<close>, and the nonce is the first valid one in
  the order of the search, 0, 1, 2, ...: no valid nonce comes before it in the unsigned
  order of the 64-bit words, and it is the least of the valid nonces that are not
  negative whenever there is one.
\<close>

theorem proofOfWork_first_nonce:
  assumes "Chain bc \<noteq> []"
    and "isProofValid h (last (Chain bc)) m (Mempool bc) now = Inr True"
  shows "\<exists>n. proofOfWork h bc now = Some (Inr (n, now)) \<and>
    isProofValid h (last (Chain bc)) n (Mempool bc) now = Inr True \<and>
    take 4 (calculateHash h (candidate (last (Chain bc)) n (Mempool bc) now)) = ''0000'' \<and>
    (\<forall>k. isProofValid h (last (Chain bc)) k (Mempool bc) now = Inr True \<longrightarrow> unat n \<le> unat k) \<and>
    (\<forall>k. isProofValid h (last (Chain bc)) k (Mempool bc) now = Inr True \<and> 0 \<le> sint k \<longrightarrow>
         0 \<le> sint n \<and> sint n \<le> sint k)"
proof -
  obtain n where found: "search h (last (Chain bc)) (Mempool bc) now 0 = Some (Inr n)"
    and valid: "isProofValid h (last (Chain bc)) n (Mempool bc) now = Inr True"
    and first: "\<And>k. isProofValid h (last (Chain bc)) k (Mempool bc) now = Inr True \<Longrightarrow> unat n \<le> unat k"
    using search_first [OF assms(2)] by blast
  have "proofOfWork h bc now = Some (Inr (n, now))"
    using assms(1) found by (simp add: proofOfWork_def)
  moreover have "take 4 (calculateHash h (candidate (last (Chain bc)) n (Mempool bc) now)) = ''0000''"
    using valid by (simp add: isProofValid_Inr)
  moreover have "0 \<le> sint n \<and> sint n \<le> sint k"
    if "isProofValid h (last (Chain bc)) k (Mempool bc) now = Inr True" and "0 \<le> sint k" for k
  proof -
    have k: "unat k < 2 ^ 63" using that(2) by (rule sint_nonneg_unat)
    moreover have le: "unat n \<le> unat k" using that(1) by (rule first)
    ultimately have n: "unat n < 2 ^ 63" by simp
    have "int (unat n) \<le> int (unat k)"
      using le by (simp only: of_nat_le_iff)
    moreover have "0 \<le> int (unat n)"
      by (rule of_nat_0_le_iff)
    ultimately show ?thesis
      unfolding unat_small_sint [OF k] unat_small_sint [OF n] by blast
  qed
  ultimately show ?thesis
    using valid first by blast
qed

text \<open>
  C9. Where some nonce makes \<^verbatim>\<open>isProofValid\<close> true for the last block, the pool and the
  clock reading, the search of \<^verbatim>\<open>proofOfWork\<close> ends: the call returns (on an empty chain,
  by the panic of the index expression). The precondition cannot be dropped: on a chain
  that is not empty, where no nonce is valid the loop never ends.
\<close>

theorem proofOfWork_terminates:
  "((\<exists>m. isProofValid h (last (Chain bc)) m (Mempool bc) now = Inr True) \<longrightarrow>
      (\<exists>r. proofOfWork h bc now = Some r)) \<and>
   (Chain bc \<noteq> [] \<and> (\<forall>m. isProofValid h (last (Chain bc)) m (Mempool bc) now \<noteq> Inr True) \<longrightarrow>
      proofOfWork h bc now = None)"
proof (intro conjI impI)
  assume "\<exists>m. isProofValid h (last (Chain bc)) m (Mempool bc) now = Inr True"
  then obtain m where "isProofValid h (last (Chain bc)) m (Mempool bc) now = Inr True" ..
  from search_first [OF this]
  obtain n where "search h (last (Chain bc)) (Mempool bc) now 0 = Some (Inr n)" by blast
  then show "\<exists>r. proofOfWork h bc now = Some r"
    by (simp add: proofOfWork_def)
next
  assume a: "Chain bc \<noteq> [] \<and> (\<forall>m. isProofValid h (last (Chain bc)) m (Mempool bc) now \<noteq> Inr True)"
  have "search h (last (Chain bc)) (Mempool bc) now 0 = None"
  proof (rule ccontr)
    assume "search h (last (Chain bc)) (Mempool bc) now 0 \<noteq> None"
    then obtain r where "search h (last (Chain bc)) (Mempool bc) now 0 = Some r" by auto
    from search_Some_valid [OF this] a show False by blast
  qed
  with a show "proofOfWork h bc now = None"
    by (simp add: proofOfWork_def)
qed

text \<open>
  C5, as the code has it. For every block: changing the nonce or the timestamp changes
  the string that \<^verbatim>\<open>calculateHash\<close> hashes, and the block's hash stays the same only
  if the old and the new string are a collision of SHA-256. For every position \<open>k\<close> in
  the block's transaction list the same holds of changing the sender of the transaction
  at \<open>k\<close>, and of changing its amount to one whose rendering with six decimals is
  different. Changing the amount to one with the same rendering changes neither the
  string nor the hash. In general two blocks have the same hash exactly when the
  digests of their strings are the same.
\<close>

theorem tamper_changes_hash:
  "(n \<noteq> Nonce b \<longrightarrow>
      hashInput h (b\<lparr>Nonce := n\<rparr>) \<noteq> hashInput h b \<and>
      (calculateHash h (b\<lparr>Nonce := n\<rparr>) = calculateHash h b) =
        sha256_collision (map of_char (hashInput h (b\<lparr>Nonce := n\<rparr>)))
          (map of_char (hashInput h b))) \<and>
   (t \<noteq> Timestamp b \<longrightarrow>
      hashInput h (b\<lparr>Timestamp := t\<rparr>) \<noteq> hashInput h b \<and>
      (calculateHash h (b\<lparr>Timestamp := t\<rparr>) = calculateHash h b) =
        sha256_collision (map of_char (hashInput h (b\<lparr>Timestamp := t\<rparr>)))
          (map of_char (hashInput h b))) \<and>
   (k < len (Transactions b) \<and> s \<noteq> Sender (elems h (Transactions b) ! k) \<longrightarrow>
      hashInput (set_transaction h b k ((elems h (Transactions b) ! k)\<lparr>Sender := s\<rparr>)) b \<noteq>
        hashInput h b \<and>
      (calculateHash (set_transaction h b k ((elems h (Transactions b) ! k)\<lparr>Sender := s\<rparr>)) b =
         calculateHash h b) =
        sha256_collision
          (map of_char
            (hashInput (set_transaction h b k ((elems h (Transactions b) ! k)\<lparr>Sender := s\<rparr>)) b))
          (map of_char (hashInput h b))) \<and>
   (k < len (Transactions b) \<and> Sprintf_f a \<noteq> Sprintf_f (Amount (elems h (Transactions b) ! k)) \<longrightarrow>
      hashInput (set_transaction h b k ((elems h (Transactions b) ! k)\<lparr>Amount := a\<rparr>)) b \<noteq>
        hashInput h b \<and>
      (calculateHash (set_transaction h b k ((elems h (Transactions b) ! k)\<lparr>Amount := a\<rparr>)) b =
         calculateHash h b) =
        sha256_collision
          (map of_char
            (hashInput (set_transaction h b k ((elems h (Transactions b) ! k)\<lparr>Amount := a\<rparr>)) b))
          (map of_char (hashInput h b))) \<and>
   (k < len (Transactions b) \<and> Sprintf_f a = Sprintf_f (Amount (elems h (Transactions b) ! k)) \<longrightarrow>
      hashInput (set_transaction h b k ((elems h (Transactions b) ! k)\<lparr>Amount := a\<rparr>)) b =
        hashInput h b \<and>
      calculateHash (set_transaction h b k ((elems h (Transactions b) ! k)\<lparr>Amount := a\<rparr>)) b =
        calculateHash h b) \<and>
   (calculateHash h b = calculateHash h' b' \<longleftrightarrow>
      Sum256 (map of_char (hashInput h b)) = Sum256 (map of_char (hashInput h' b')))"
proof (intro conjI impI)
  assume "n \<noteq> Nonce b"
  then show "hashInput h (b\<lparr>Nonce := n\<rparr>) \<noteq> hashInput h b"
    by (simp add: hashInput_Nonce)
  then show "(calculateHash h (b\<lparr>Nonce := n\<rparr>) = calculateHash h b) =
      sha256_collision (map of_char (hashInput h (b\<lparr>Nonce := n\<rparr>))) (map of_char (hashInput h b))"
    by (rule calculateHash_collision)
next
  assume "t \<noteq> Timestamp b"
  then show "hashInput h (b\<lparr>Timestamp := t\<rparr>) \<noteq> hashInput h b"
    by (simp add: hashInput_Timestamp)
  then show "(calculateHash h (b\<lparr>Timestamp := t\<rparr>) = calculateHash h b) =
      sha256_collision (map of_char (hashInput h (b\<lparr>Timestamp := t\<rparr>))) (map of_char (hashInput h b))"
    by (rule calculateHash_collision)
next
  assume "k < len (Transactions b) \<and> s \<noteq> Sender (elems h (Transactions b) ! k)"
  then show "hashInput (set_transaction h b k ((elems h (Transactions b) ! k)\<lparr>Sender := s\<rparr>)) b \<noteq>
      hashInput h b"
    by (simp add: hashInput_set_transaction)
  then show "(calculateHash (set_transaction h b k ((elems h (Transactions b) ! k)\<lparr>Sender := s\<rparr>)) b =
         calculateHash h b) =
        sha256_collision
          (map of_char
            (hashInput (set_transaction h b k ((elems h (Transactions b) ! k)\<lparr>Sender := s\<rparr>)) b))
          (map of_char (hashInput h b))"
    by (rule calculateHash_collision)
next
  assume "k < len (Transactions b) \<and> Sprintf_f a \<noteq> Sprintf_f (Amount (elems h (Transactions b) ! k))"
  then show "hashInput (set_transaction h b k ((elems h (Transactions b) ! k)\<lparr>Amount := a\<rparr>)) b \<noteq>
      hashInput h b"
    by (simp add: hashInput_set_transaction)
  then show "(calculateHash (set_transaction h b k ((elems h (Transactions b) ! k)\<lparr>Amount := a\<rparr>)) b =
         calculateHash h b) =
        sha256_collision
          (map of_char
            (hashInput (set_transaction h b k ((elems h (Transactions b) ! k)\<lparr>Amount := a\<rparr>)) b))
          (map of_char (hashInput h b))"
    by (rule calculateHash_collision)
next
  assume "k < len (Transactions b) \<and> Sprintf_f a = Sprintf_f (Amount (elems h (Transactions b) ! k))"
  then show same: "hashInput (set_transaction h b k ((elems h (Transactions b) ! k)\<lparr>Amount := a\<rparr>)) b =
      hashInput h b"
    by (simp add: hashInput_set_transaction)
  show "calculateHash (set_transaction h b k ((elems h (Transactions b) ! k)\<lparr>Amount := a\<rparr>)) b =
      calculateHash h b"
    by (simp only: calculateHash_def same)
next
  show "calculateHash h b = calculateHash h' b' \<longleftrightarrow>
      Sum256 (map of_char (hashInput h b)) = Sum256 (map of_char (hashInput h' b'))"
    by (rule calculateHash_eq_iff)
qed

text \<open>
  The block committed by the run of main holds the transaction from Alice to Bob with the
  amount 50. Overwriting that amount with the next float64 above 50 leaves the block's
  hash as it was: both amounts are rendered \<open>50.000000\<close>.
\<close>

theorem amount_tamper_keeps_hash:
  "Amount (elems (fst main_pooled) (Transactions (last (Chain main_committed))) ! 0) \<noteq> 0x4049000000000001 \<and>
   calculateHash
     (set_transaction (fst main_pooled) (last (Chain main_committed)) 0
        ((elems (fst main_pooled) (Transactions (last (Chain main_committed))) ! 0)
           \<lparr>Amount := 0x4049000000000001\<rparr>))
     (last (Chain main_committed)) =
   calculateHash (fst main_pooled) (last (Chain main_committed))"
proof -
  have k: "0 < len (Transactions (last (Chain main_committed)))"
    by (simp add: main_committed_last main_pool_len)
  have "hashInput
     (set_transaction (fst main_pooled) (last (Chain main_committed)) 0
        ((elems (fst main_pooled) (Transactions (last (Chain main_committed))) ! 0)
           \<lparr>Amount := 0x4049000000000001\<rparr>))
     (last (Chain main_committed)) =
   hashInput (fst main_pooled) (last (Chain main_committed))"
    by (simp add: hashInput_set_transaction [OF k] main_committed_last main_pool_elems
        Sprintf_f_50 Sprintf_f_50_next)
  then show ?thesis
    by (simp add: calculateHash_def main_committed_last main_pool_elems)
qed

section \<open>The hashes of the run of main, computed\<close>

lemma replicate_numeral: "replicate (numeral k) x = x # replicate (pred_numeral k) x"
  by (simp add: numeral_eq_Suc)

lemmas sha256_defs = EncodeToString_def hextable_def
  Sum256_def pad256_def be_bytes8_def be_bytes4_def replicate_numeral compress_def K256_def init256_def
  next_w_def maj_def ch_def ssig0_def ssig1_def bsig0_def bsig1_def rotr_def add32_def
  numeral_and_num numeral_xor_num numeral_or_num

lemma main_genesis_input:
  "hashInput main_heap \<lparr>Index = 0, Timestamp = 1700000000, Transactions = empty_slice, Nonce = 100,
     PreviousHash = ''0'', Hash = x\<rparr> = ''0170000000010000''"
  by (simp add: hashInput_def elems_def empty_slice_def format_defs)

lemma main_genesis_hash:
  "calculateHash main_heap \<lparr>Index = 0, Timestamp = 1700000000, Transactions = empty_slice, Nonce = 100,
     PreviousHash = ''0'', Hash = x\<rparr> =
   ''ec5037b366f9a281ef05d40e7e0554b070b85043a9a52505c0258ce165623594''"
  by (simp add: calculateHash_def main_genesis_input sha256_defs
      del: and_numerals xor_numerals or_numerals)

lemma main_genesis_tampered_input:
  "hashInput main_heap \<lparr>Index = 0, Timestamp = 1700000000, Transactions = empty_slice, Nonce = 101,
     PreviousHash = ''0'', Hash = x\<rparr> = ''0170000000010100''"
  by (simp add: hashInput_def elems_def empty_slice_def format_defs)

lemma main_genesis_tampered_hash:
  "calculateHash main_heap \<lparr>Index = 0, Timestamp = 1700000000, Transactions = empty_slice, Nonce = 101,
     PreviousHash = ''0'', Hash = x\<rparr> =
   ''11c486c3586469d7da1f4b6ba8c1ebbb1ea978bafd281d245d70248071f6eade''"
  by (simp add: calculateHash_def main_genesis_tampered_input sha256_defs
      del: and_numerals xor_numerals or_numerals)

lemma main_created_eq:
  "main_created = \<lparr>Chain = [\<lparr>Index = 0, Timestamp = 1700000000, Transactions = empty_slice, Nonce = 100,
     PreviousHash = ''0'',
     Hash = ''ec5037b366f9a281ef05d40e7e0554b070b85043a9a52505c0258ce165623594''\<rparr>],
     Mempool = empty_slice\<rparr>"
  by (simp add: main_created_def createBlockchain_def createGenesisBlock_def Let_def main_genesis_hash)

lemma main_candidate_input:
  "hashInput (fst main_pooled)
     (candidate (last (Chain (snd main_pooled))) 0 (Mempool (snd main_pooled)) 1700112152) =
   ''117001121520ec5037b366f9a281ef05d40e7e0554b070b85043a9a52505c0258ce1656235942AliceBob50.000000BobCharlie25.000000''"
  by (simp add: hashInput_def candidate_def main_pooled_Chain main_pool_len main_pool_elems
      main_created_eq format_defs)

lemma main_candidate_hash:
  "calculateHash (fst main_pooled)
     (candidate (last (Chain (snd main_pooled))) 0 (Mempool (snd main_pooled)) 1700112152) =
   ''00002148f571900b03f03def05115917cccce95f2ff194d07d504f2db647589e''"
  by (simp add: calculateHash_def main_candidate_input sha256_defs
      del: and_numerals xor_numerals or_numerals)

lemma main_nonce_valid:
  "isProofValid (fst main_pooled) (last (Chain (snd main_pooled))) 0 (Mempool (snd main_pooled))
     1700112152 = Inr True"
  by (simp add: isProofValid_Inr main_candidate_hash)

lemma main_pooled_nonempty: "Chain (snd main_pooled) \<noteq> []"
  by (simp add: main_pooled_Chain main_created_Chain)

theorem proofOfWork_first_nonce_witness:
  "Chain (snd main_pooled) \<noteq> [] \<and>
   isProofValid (fst main_pooled) (last (Chain (snd main_pooled))) 0 (Mempool (snd main_pooled))
     1700112152 = Inr True \<and>
   proofOfWork (fst main_pooled) (snd main_pooled) 1700112152 = Some (Inr (0, 1700112152)) \<and>
   take 4 (calculateHash (fst main_pooled)
     (candidate (last (Chain (snd main_pooled))) 0 (Mempool (snd main_pooled)) 1700112152)) = ''0000''"
proof -
  from proofOfWork_first_nonce [OF main_pooled_nonempty main_nonce_valid]
  obtain n where pow: "proofOfWork (fst main_pooled) (snd main_pooled) 1700112152 = Some (Inr (n, 1700112152))"
    and first: "\<forall>k. isProofValid (fst main_pooled) (last (Chain (snd main_pooled))) k
        (Mempool (snd main_pooled)) 1700112152 = Inr True \<longrightarrow> unat n \<le> unat k"
    by blast
  from first main_nonce_valid have "unat n \<le> unat (0 :: go_int)" by blast
  then have "n = 0" by (simp add: unat_eq_zero)
  with pow main_pooled_nonempty main_nonce_valid show ?thesis
    by (simp add: main_candidate_hash)
qed

theorem proofOfWork_terminates_witness:
  "(\<exists>m. isProofValid (fst main_pooled) (last (Chain (snd main_pooled))) m (Mempool (snd main_pooled))
      1700112152 = Inr True) \<and>
   (\<exists>r. proofOfWork (fst main_pooled) (snd main_pooled) 1700112152 = Some r)"
proof -
  have ex: "\<exists>m. isProofValid (fst main_pooled) (last (Chain (snd main_pooled))) m (Mempool (snd main_pooled))
      1700112152 = Inr True"
    using main_nonce_valid by blast
  with proofOfWork_terminates [of "fst main_pooled" "snd main_pooled" 1700112152]
  show ?thesis by blast
qed

theorem tamper_changes_hash_witness:
  "len (Transactions (hd (Chain main_created))) = 0 \<and>
   101 \<noteq> Nonce (hd (Chain main_created)) \<and>
   hashInput main_heap ((hd (Chain main_created))\<lparr>Nonce := 101\<rparr>) \<noteq>
     hashInput main_heap (hd (Chain main_created)) \<and>
   calculateHash main_heap ((hd (Chain main_created))\<lparr>Nonce := 101\<rparr>) \<noteq>
     calculateHash main_heap (hd (Chain main_created)) \<and>
   \<not> sha256_collision
     (map of_char (hashInput main_heap ((hd (Chain main_created))\<lparr>Nonce := 101\<rparr>)))
     (map of_char (hashInput main_heap (hd (Chain main_created)))) \<and>
   0 < len (Transactions (last (Chain main_committed))) \<and>
   5 \<noteq> Timestamp (last (Chain main_committed)) \<and>
   hashInput (fst main_pooled) ((last (Chain main_committed))\<lparr>Timestamp := 5\<rparr>) \<noteq>
     hashInput (fst main_pooled) (last (Chain main_committed)) \<and>
   ''Mallory'' \<noteq> Sender (elems (fst main_pooled) (Transactions (last (Chain main_committed))) ! 0) \<and>
   hashInput
     (set_transaction (fst main_pooled) (last (Chain main_committed)) 0
        ((elems (fst main_pooled) (Transactions (last (Chain main_committed))) ! 0)
           \<lparr>Sender := ''Mallory''\<rparr>))
     (last (Chain main_committed)) \<noteq>
   hashInput (fst main_pooled) (last (Chain main_committed)) \<and>
   Sprintf_f 0x4039000000000000 \<noteq>
     Sprintf_f (Amount (elems (fst main_pooled) (Transactions (last (Chain main_committed))) ! 0)) \<and>
   hashInput
     (set_transaction (fst main_pooled) (last (Chain main_committed)) 0
        ((elems (fst main_pooled) (Transactions (last (Chain main_committed))) ! 0)
           \<lparr>Amount := 0x4039000000000000\<rparr>))
     (last (Chain main_committed)) \<noteq>
   hashInput (fst main_pooled) (last (Chain main_committed)) \<and>
   Sprintf_f 0x4049000000000001 =
     Sprintf_f (Amount (elems (fst main_pooled) (Transactions (last (Chain main_committed))) ! 0)) \<and>
   hashInput
     (set_transaction (fst main_pooled) (last (Chain main_committed)) 0
        ((elems (fst main_pooled) (Transactions (last (Chain main_committed))) ! 0)
           \<lparr>Amount := 0x4049000000000001\<rparr>))
     (last (Chain main_committed)) =
   hashInput (fst main_pooled) (last (Chain main_committed))"
proof -
  have g: "hd (Chain main_created) =
      \<lparr>Index = 0, Timestamp = 1700000000, Transactions = empty_slice, Nonce = 100,
       PreviousHash = ''0'',
       Hash = ''ec5037b366f9a281ef05d40e7e0554b070b85043a9a52505c0258ce165623594''\<rparr>"
    by (simp add: main_created_eq)
  have g0: "len (Transactions (hd (Chain main_created))) = 0"
    by (simp add: g empty_slice_def)
  have gn: "101 \<noteq> Nonce (hd (Chain main_created))"
    by (simp add: g)
  have gh: "calculateHash main_heap ((hd (Chain main_created))\<lparr>Nonce := 101\<rparr>) \<noteq>
      calculateHash main_heap (hd (Chain main_created))"
    by (simp add: g main_genesis_hash main_genesis_tampered_hash)
  note genesis = tamper_changes_hash [where n = 101 and b = "hd (Chain main_created)" and h = main_heap]
  from genesis gn
  have gi: "hashInput main_heap ((hd (Chain main_created))\<lparr>Nonce := 101\<rparr>) \<noteq>
      hashInput main_heap (hd (Chain main_created))"
    by blast
  from genesis gn gh
  have gc: "\<not> sha256_collision
     (map of_char (hashInput main_heap ((hd (Chain main_created))\<lparr>Nonce := 101\<rparr>)))
     (map of_char (hashInput main_heap (hd (Chain main_created))))"
    by blast
  have k: "0 < len (Transactions (last (Chain main_committed)))"
    by (simp add: main_committed_last main_pool_len)
  have t: "5 \<noteq> Timestamp (last (Chain main_committed))"
    by (simp add: main_committed_def addBlock_def Let_def)
  have s: "''Mallory'' \<noteq> Sender (elems (fst main_pooled) (Transactions (last (Chain main_committed))) ! 0)"
    by (simp add: main_committed_last main_pool_elems)
  have a: "Sprintf_f 0x4039000000000000 \<noteq>
     Sprintf_f (Amount (elems (fst main_pooled) (Transactions (last (Chain main_committed))) ! 0))"
    by (simp add: main_committed_last main_pool_elems Sprintf_f_50) (simp add: format_defs)
  have a': "Sprintf_f 0x4049000000000001 =
     Sprintf_f (Amount (elems (fst main_pooled) (Transactions (last (Chain main_committed))) ! 0))"
    by (simp add: main_committed_last main_pool_elems Sprintf_f_50 Sprintf_f_50_next)
  note block = tamper_changes_hash [where b = "last (Chain main_committed)" and h = "fst main_pooled"
      and t = 5 and k = 0 and s = "''Mallory''"]
  from block [where a = "0x4039000000000000"] k t s a
  have "hashInput (fst main_pooled) ((last (Chain main_committed))\<lparr>Timestamp := 5\<rparr>) \<noteq>
     hashInput (fst main_pooled) (last (Chain main_committed))"
    and "hashInput
     (set_transaction (fst main_pooled) (last (Chain main_committed)) 0
        ((elems (fst main_pooled) (Transactions (last (Chain main_committed))) ! 0)
           \<lparr>Sender := ''Mallory''\<rparr>))
     (last (Chain main_committed)) \<noteq>
   hashInput (fst main_pooled) (last (Chain main_committed))"
    and "hashInput
     (set_transaction (fst main_pooled) (last (Chain main_committed)) 0
        ((elems (fst main_pooled) (Transactions (last (Chain main_committed))) ! 0)
           \<lparr>Amount := 0x4039000000000000\<rparr>))
     (last (Chain main_committed)) \<noteq>
   hashInput (fst main_pooled) (last (Chain main_committed))"
    by blast+
  moreover from block [where a = "0x4049000000000001"] k a'
  have "hashInput
     (set_transaction (fst main_pooled) (last (Chain main_committed)) 0
        ((elems (fst main_pooled) (Transactions (last (Chain main_committed))) ! 0)
           \<lparr>Amount := 0x4049000000000001\<rparr>))
     (last (Chain main_committed)) =
   hashInput (fst main_pooled) (last (Chain main_committed))"
    by blast
  ultimately show ?thesis
    using g0 gn gi gh gc k t s a a' by blast
qed

end
